theory Spec2Isabelle
  imports Complex_Main
begin

section \<open>Machine integers and the Go library functions the code calls\<close>

text \<open>
  Go's \<open>int\<close> is 64 bits wide on the platforms the repository targets, and signed
  overflow wraps around. Integers are modelled as \<open>int\<close>; \<open>wrap64\<close> is written at
  every addition of the source whose operands are not bounded by the code itself.
\<close>

definition minInt :: int where
  "minInt = - (2 ^ 63)"

definition maxInt :: int where
  "maxInt = 2 ^ 63 - 1"

definition wrap64 :: "int \<Rightarrow> int" where
  "wrap64 x = (x + 2 ^ 63) mod 2 ^ 64 - 2 ^ 63"

text \<open>
  The errors of \<open>pkg/schedule/cron.go\<close>, one constructor for each \<open>fmt.Errorf\<close> of the
  source and one for the error \<open>strconv.Atoi\<close> returns. \<open>FieldError\<close> is the wrapping
  \<open>"invalid minute field: %w"\<close> that \<open>ParseCron\<close> puts around a field's error.
\<close>

datatype error =
    FieldCountError nat
  | InvalidRange string
  | RangeError string int int
  | InvalidStep string
  | ValueError int int int
  | NumError string
  | FieldError string error

text \<open>
  \<open>strconv.Atoi\<close>: an optional sign, then at least one decimal digit and nothing else;
  a value outside the 64-bit range is an error.
\<close>

definition isDigit :: "char \<Rightarrow> bool" where
  "isDigit c = (48 \<le> (of_char c :: nat) \<and> (of_char c :: nat) \<le> 57)"

definition digitVal :: "char \<Rightarrow> int" where
  "digitVal c = int (of_char c) - 48"

definition digitsVal :: "string \<Rightarrow> int" where
  "digitsVal ds = foldl (\<lambda>n ch. n * 10 + digitVal ch) 0 ds"

definition Atoi :: "string \<Rightarrow> error + int" where
  "Atoi s =
     (let neg = (s \<noteq> [] \<and> hd s = CHR ''-'');
          ds = (if s \<noteq> [] \<and> (hd s = CHR ''-'' \<or> hd s = CHR ''+'') then tl s else s)
      in if ds = [] \<or> \<not> list_all isDigit ds then Inl (NumError s)
         else let n = (if neg then - digitsVal ds else digitsVal ds)
              in if n < minInt \<or> maxInt < n then Inl (NumError s) else Inr n)"

text \<open>
  \<open>strings.Split(s, sep)\<close> for a one-byte separator: the pieces between the
  occurrences of \<open>sep\<close>, one more piece than there are occurrences.
\<close>

primrec splitAcc :: "char \<Rightarrow> string \<Rightarrow> string \<Rightarrow> string list" where
  "splitAcc sep cur [] = [cur]"
| "splitAcc sep cur (c # r) =
     (if c = sep then cur # splitAcc sep [] r else splitAcc sep (cur @ [c]) r)"

definition Split :: "string \<Rightarrow> char \<Rightarrow> string list" where
  "Split s sep = splitAcc sep [] s"

text \<open>\<open>strings.Contains(s, sep)\<close> for a one-byte \<open>sep\<close>.\<close>

definition Contains :: "string \<Rightarrow> char \<Rightarrow> bool" where
  "Contains s sep = (sep \<in> set s)"

text \<open>
  \<open>strings.Fields\<close> splits around runs of white space as \<open>unicode.IsSpace\<close> defines
  it. A Go string is a sequence of bytes holding UTF-8, so \<open>spaceLen\<close> gives the number
  of bytes of the white-space rune that starts a string (0 when none does): the six
  ASCII spaces, U+0085 and U+00A0 (two bytes), U+1680, U+2000 to U+200A, U+2028,
  U+2029, U+202F, U+205F and U+3000 (three bytes).
\<close>

definition spaceLen :: "string \<Rightarrow> nat" where
  "spaceLen s =
     (let bs = map of_char (take 3 s) :: nat list
      in if take 1 bs = [9] \<or> take 1 bs = [10] \<or> take 1 bs = [11] \<or> take 1 bs = [12]
            \<or> take 1 bs = [13] \<or> take 1 bs = [32] then 1
         else if take 2 bs = [0xC2, 0x85] \<or> take 2 bs = [0xC2, 0xA0] then 2
         else if bs = [0xE1, 0x9A, 0x80] \<or> bs = [0xE2, 0x80, 0xA8] \<or> bs = [0xE2, 0x80, 0xA9]
            \<or> bs = [0xE2, 0x80, 0xAF] \<or> bs = [0xE2, 0x81, 0x9F] \<or> bs = [0xE3, 0x80, 0x80]
            \<or> (take 2 bs = [0xE2, 0x80] \<and> length bs = 3 \<and> 0x80 \<le> bs ! 2 \<and> bs ! 2 \<le> 0x8A)
         then 3
         else 0)"

text \<open>
  The scan of \<open>Fields\<close>: \<open>skip\<close> counts the bytes of a white-space rune still to be
  passed over, \<open>cur\<close> is the field being collected.
\<close>

fun fieldsAcc :: "nat \<Rightarrow> string \<Rightarrow> string \<Rightarrow> string list" where
  "fieldsAcc skip cur [] = (if cur = [] then [] else [cur])"
| "fieldsAcc skip cur (c # r) =
     (if 0 < skip then fieldsAcc (skip - 1) cur r
      else if 0 < spaceLen (c # r)
           then (if cur = [] then [] else [cur]) @ fieldsAcc (spaceLen (c # r) - 1) [] r
           else fieldsAcc 0 (cur @ [c]) r)"

definition Fields :: "string \<Rightarrow> string list" where
  "Fields s = fieldsAcc 0 [] s"

section \<open>The cron expression parser (\<open>pkg/schedule/cron.go\<close>)\<close>

record CronExpression =
  minute :: "int list"
  hour :: "int list"
  dayOfMonth :: "int list"
  month :: "int list"
  dayOfWeek :: "int list"

text \<open>
  The three loops of \<open>parseField\<close> have one shape,
  \<^verbatim>\<open>for i := a; i <= b; i += s { values = append(values, i) }\<close>
  with \<open>s = 1\<close> for \<open>i++\<close>. Nothing in the source bounds the number of rounds, so the
  loop is a partial function: \<open>None\<close> is the run that never leaves the loop.
\<close>

partial_function (option) appendLoop :: "int \<Rightarrow> int \<Rightarrow> int \<Rightarrow> int list \<Rightarrow> int list option" where
  [code]: "appendLoop i b s vals =
     (if i \<le> b then appendLoop (wrap64 (i + s)) b s (vals @ [i]) else Some vals)"

text \<open>
  The body of the loop over the comma-separated parts: \<open>vals\<close> is the slice \<open>values\<close>
  collected so far. A result \<open>Some (Inl e)\<close> is the \<open>return nil, err\<close> of the source.
\<close>

definition parsePart :: "string \<Rightarrow> int \<Rightarrow> int \<Rightarrow> int list \<Rightarrow> (error + int list) option" where
  "parsePart part mn mx vals =
     (if Contains part CHR ''-'' then
        (let rangeParts = Split part CHR ''-''
         in if length rangeParts \<noteq> 2 then Some (Inl (InvalidRange part))
            else case Atoi (rangeParts ! 0) of
                   Inl e \<Rightarrow> Some (Inl e)
                 | Inr start \<Rightarrow>
                     (case Atoi (rangeParts ! 1) of
                        Inl e \<Rightarrow> Some (Inl e)
                      | Inr stop \<Rightarrow>
                          if start < mn \<or> stop > mx \<or> start > stop
                          then Some (Inl (RangeError part mn mx))
                          else map_option Inr (appendLoop start stop 1 vals)))
      else if Contains part CHR ''/'' then
        (let stepParts = Split part CHR ''/''
         in if length stepParts \<noteq> 2 then Some (Inl (InvalidStep part))
            else case Atoi (stepParts ! 1) of
                   Inl e \<Rightarrow> Some (Inl e)
                 | Inr step \<Rightarrow>
                     (case (if stepParts ! 0 \<noteq> ''*'' then Atoi (stepParts ! 0) else Inr mn) of
                        Inl e \<Rightarrow> Some (Inl e)
                      | Inr start \<Rightarrow> map_option Inr (appendLoop start mx step vals)))
      else
        (case Atoi part of
           Inl e \<Rightarrow> Some (Inl e)
         | Inr v \<Rightarrow>
             if v < mn \<or> v > mx then Some (Inl (ValueError v mn mx))
             else Some (Inr (vals @ [v]))))"

fun partsLoop :: "string list \<Rightarrow> int \<Rightarrow> int \<Rightarrow> int list \<Rightarrow> (error + int list) option" where
  "partsLoop [] mn mx vals = Some (Inr vals)"
| "partsLoop (part # parts) mn mx vals =
     (case parsePart part mn mx vals of
        None \<Rightarrow> None
      | Some (Inl e) \<Rightarrow> Some (Inl e)
      | Some (Inr vals') \<Rightarrow> partsLoop parts mn mx vals')"

definition parseField :: "string \<Rightarrow> int \<Rightarrow> int \<Rightarrow> (error + int list) option" where
  "parseField field mn mx =
     (if field = ''*'' then map_option Inr (appendLoop mn mx 1 [])
      else partsLoop (Split field CHR '','') mn mx [])"

text \<open>
  One field of \<open>ParseCron\<close>: parse it, wrap its error, go on with the next field.
\<close>

definition withField ::
  "string \<Rightarrow> string \<Rightarrow> int \<Rightarrow> int \<Rightarrow> (int list \<Rightarrow> (error + 'a) option) \<Rightarrow> (error + 'a) option" where
  "withField name field mn mx k =
     (case parseField field mn mx of
        None \<Rightarrow> None
      | Some (Inl e) \<Rightarrow> Some (Inl (FieldError name e))
      | Some (Inr vs) \<Rightarrow> k vs)"

definition ParseCron :: "string \<Rightarrow> (error + CronExpression) option" where
  "ParseCron expr =
     (let fields = Fields expr
      in if length fields \<noteq> 5 then Some (Inl (FieldCountError (length fields)))
         else
           withField ''minute'' (fields ! 0) 0 59 (\<lambda>mi.
           withField ''hour'' (fields ! 1) 0 23 (\<lambda>ho.
           withField ''day'' (fields ! 2) 1 31 (\<lambda>dm.
           withField ''month'' (fields ! 3) 1 12 (\<lambda>mo.
           withField ''weekday'' (fields ! 4) 0 6 (\<lambda>dw.
             Some (Inr \<lparr>minute = mi, hour = ho, dayOfMonth = dm, month = mo,
                        dayOfWeek = dw\<rparr>)))))))"


section \<open>Time (\<open>time.Time\<close> of the Go library)\<close>

text \<open>
  An instant is the number of nanoseconds since the zero value of \<open>time.Time\<close>,
  January 1 of year 1, 00:00:00 UTC, which is the instant that \<open>Truncate\<close> counts from.
  A \<open>Duration\<close> is a number of nanoseconds. The calendar fields are read in UTC, in the
  proleptic Gregorian calendar, as the library does; instants are not bounded.
\<close>

type_synonym Time = int
type_synonym Duration = int

definition zeroTime :: Time where
  "zeroTime = 0"

definition Second :: Duration where
  "Second = 1000000000"

definition Minute :: Duration where
  "Minute = 60 * Second"

definition Add :: "Time \<Rightarrow> Duration \<Rightarrow> Time" where
  "Add t d = t + d"

text \<open>\<open>t.Truncate(d)\<close> rounds \<open>t\<close> down to a multiple of \<open>d\<close>; \<open>d \<le> 0\<close> leaves \<open>t\<close>.\<close>

definition Truncate :: "Time \<Rightarrow> Duration \<Rightarrow> Time" where
  "Truncate t d = (if d \<le> 0 then t else t - t mod d)"


definition absSeconds :: "Time \<Rightarrow> int" where
  "absSeconds t = t div Second"



definition Minute_of :: "Time \<Rightarrow> int" where
  "Minute_of t = (absSeconds t div 60) mod 60"

definition Hour_of :: "Time \<Rightarrow> int" where
  "Hour_of t = (absSeconds t div 3600) mod 24"

definition daysSinceZero :: "Time \<Rightarrow> int" where
  "daysSinceZero t = absSeconds t div 86400"

text \<open>Day 0 is a Monday; \<open>Weekday\<close> counts from Sunday = 0.\<close>

definition Weekday_of :: "Time \<Rightarrow> int" where
  "Weekday_of t = (daysSinceZero t + 1) mod 7"

text \<open>
  The year and the day within the year, by the cycles of 400, 100, 4 and 1 years
  (146097, 36524, 1461 and 365 days).
\<close>

definition isLeap :: "int \<Rightarrow> bool" where
  "isLeap y = (y mod 4 = 0 \<and> (y mod 100 \<noteq> 0 \<or> y mod 400 = 0))"

definition yearDay :: "int \<Rightarrow> int \<times> int" where
  "yearDay d =
     (let n400 = d div 146097; d1 = d mod 146097;
          n100 = min 3 (d1 div 36524); d2 = d1 - 36524 * n100;
          n4 = d2 div 1461; d3 = d2 mod 1461;
          n1 = min 3 (d3 div 365); yday = d3 - 365 * n1
      in (400 * n400 + 100 * n100 + 4 * n4 + n1 + 1, yday))"

text \<open>Month and day of the month from the day of a common year (0 to 364).\<close>

definition monthDayCommon :: "int \<Rightarrow> int \<times> int" where
  "monthDayCommon yd =
     (if yd < 31 then (1, yd + 1)
      else if yd < 59 then (2, yd - 30)
      else if yd < 90 then (3, yd - 58)
      else if yd < 120 then (4, yd - 89)
      else if yd < 151 then (5, yd - 119)
      else if yd < 181 then (6, yd - 150)
      else if yd < 212 then (7, yd - 180)
      else if yd < 243 then (8, yd - 211)
      else if yd < 273 then (9, yd - 242)
      else if yd < 304 then (10, yd - 272)
      else if yd < 334 then (11, yd - 303)
      else (12, yd - 333))"

text \<open>In a leap year day 59 is February 29 and the later days move by one.\<close>

definition monthDay :: "Time \<Rightarrow> int \<times> int" where
  "monthDay t =
     (let (y, yd) = yearDay (daysSinceZero t)
      in if isLeap y then
           (if yd = 59 then (2, 29)
            else if yd > 59 then monthDayCommon (yd - 1)
            else monthDayCommon yd)
         else monthDayCommon yd)"

definition Month_of :: "Time \<Rightarrow> int" where
  "Month_of t = fst (monthDay t)"

definition Day_of :: "Time \<Rightarrow> int" where
  "Day_of t = snd (monthDay t)"

text \<open>
  \<open>time.Date(y, mo, d, h, mi, 0, 0, time.UTC)\<close> for a date from year 1 on, used to
  write the instants of the examples.
\<close>

definition daysBeforeYear :: "int \<Rightarrow> int" where
  "daysBeforeYear y = 365 * (y - 1) + (y - 1) div 4 - (y - 1) div 100 + (y - 1) div 400"

definition daysBeforeMonth :: "int \<Rightarrow> int \<Rightarrow> int" where
  "daysBeforeMonth y m =
     [0, 31, 59, 90, 120, 151, 181, 212, 243, 273, 304, 334] ! nat (m - 1)
     + (if isLeap y \<and> 2 < m then 1 else 0)"

definition Date :: "int \<Rightarrow> int \<Rightarrow> int \<Rightarrow> int \<Rightarrow> int \<Rightarrow> Time" where
  "Date y m d h mi =
     (((daysBeforeYear y + daysBeforeMonth y m + (d - 1)) * 24 + h) * 60 + mi) * 60 * Second"

section \<open>Next, matches and IsDue (\<open>pkg/schedule/cron.go\<close>)\<close>

primrec contains :: "int list \<Rightarrow> int \<Rightarrow> bool" where
  "contains [] v = False"
| "contains (x # xs) v = (if x = v then True else contains xs v)"

definition matches :: "CronExpression \<Rightarrow> Time \<Rightarrow> bool" where
  "matches c t =
     (contains (minute c) (Minute_of t) \<and>
      contains (hour c) (Hour_of t) \<and>
      contains (dayOfMonth c) (Day_of t) \<and>
      contains (month c) (Month_of t) \<and>
      contains (dayOfWeek c) (Weekday_of t))"


definition maxIterations :: int where
  "maxIterations = 525600"

text \<open>The loop of \<open>Next\<close>: \<open>i\<close> is the loop counter, \<open>t\<close> the candidate minute.\<close>

function NextLoop :: "CronExpression \<Rightarrow> int \<Rightarrow> Time \<Rightarrow> Time" where
  "NextLoop c i t =
     (if i < maxIterations
      then (if matches c t then t else NextLoop c (i + 1) (Add t Minute))
      else zeroTime)"
  by pat_completeness auto
termination
  by (relation "measure (\<lambda>(c, i, t). nat (maxIterations - i))") auto

declare NextLoop.simps [simp del]

definition Next :: "CronExpression \<Rightarrow> Time \<Rightarrow> Time" where
  "Next c from = NextLoop c 0 (Add (Truncate from Minute) Minute)"

section \<open>The rate limiters (\<open>pkg/ratelimit/ratelimit.go\<close>)\<close>

text \<open>
  Each limiter keeps its per-key state in a map. A call of \<open>AllowN\<close> holds the lock of
  the key's state while it reads and writes it, so a call is one step on the state of the
  limiter. The readings of \<open>time.Now()\<close> are arguments: \<open>created\<close> is the reading
  taken when the state of a fresh key is made, \<open>now\<close> the one taken under the lock.
  The \<open>float64\<close> token count is a real number: rounding is not modelled.
\<close>



subsection \<open>Token bucket\<close>








subsection \<open>Sliding window\<close>







subsection \<open>Fixed window\<close>







subsection \<open>Sequences of calls\<close>










subsection \<open>Invariants of the limiters\<close>







section \<open>The execution log of the scheduler (\<open>pkg/schedule/schedule.go\<close>)\<close>

record TaskLog =
  TaskID :: string
  TaskName :: string
  StartTime :: Time
  EndTime :: Time
  Duration :: Duration
  Success :: bool
  Error :: string

text \<open>
  The part of \<open>Scheduler\<close> that \<open>addLog\<close> reads and writes. \<open>NewScheduler\<close> is the
  only place of the package that sets \<open>maxLogSize\<close>.
\<close>

record Scheduler =
  logs :: "TaskLog list"
  maxLogSize :: int

definition NewScheduler :: Scheduler where
  "NewScheduler = \<lparr>logs = [], maxLogSize = 1000\<rparr>"

datatype panic = SliceBoundsOutOfRange

text \<open>
  \<open>s.logs[k:]\<close> panics unless \<open>0 \<le> k \<le> len(s.logs)\<close>; with \<open>k\<close> the number of
  entries above \<open>maxLogSize\<close> that is the case exactly when \<open>maxLogSize\<close> is not
  negative.
\<close>

definition addLog :: "Scheduler \<Rightarrow> TaskLog \<Rightarrow> panic + Scheduler" where
  "addLog s lg =
     (let appended = logs s @ [lg]
      in if int (length appended) > maxLogSize s
         then (let k = int (length appended) - maxLogSize s
               in if k < 0 \<or> int (length appended) < k then Inl SliceBoundsOutOfRange
                  else Inr (s\<lparr>logs := drop (nat k) appended\<rparr>))
         else Inr (s\<lparr>logs := appended\<rparr>))"

text \<open>Calls of \<open>addLog\<close> one after the other, stopping at a panic.\<close>

fun addLogs :: "Scheduler \<Rightarrow> TaskLog list \<Rightarrow> panic + Scheduler" where
  "addLogs s [] = Inr s"
| "addLogs s (lg # lgs) =
     (case addLog s lg of Inl p \<Rightarrow> Inl p | Inr s' \<Rightarrow> addLogs s' lgs)"

text \<open>A log entry for the examples: task \<open>job\<close>, started at second \<open>n\<close>, successful.\<close>

definition logEntry :: "int \<Rightarrow> TaskLog" where
  "logEntry n =
     \<lparr>TaskID = ''task_1'', TaskName = ''job'', StartTime = n * Second,
      EndTime = n * Second, Duration = 0, Success = True, Error = []\<rparr>"

section \<open>Running tasks (\<open>pkg/schedule/schedule.go\<close>)\<close>

text \<open>\<open>t.Unix()\<close>: the seconds since January 1, 1970 UTC.\<close>

definition Unix :: "Time \<Rightarrow> int" where
  "Unix t = absSeconds t - 62135596800"

text \<open>
  A \<open>Task\<close>, without its handler: what a run of the handler returns is part of the
  event that ends the run.
\<close>

record Task =
  ID :: string
  Name :: string
  Schedule :: string
  LastRunAt :: Time
  NextRunAt :: Time
  RunCount :: int
  FailCount :: int
  IsRunning :: bool
  Description :: string
  cronExpr :: "CronExpression option"

definition shouldRun :: "Task \<Rightarrow> Time \<Rightarrow> bool" where
  "shouldRun task now =
     (if IsRunning task then False
      else if cronExpr task = None then False
      else Unix now \<ge> Unix (NextRunAt task))"

text \<open>
  Where a goroutine that executes \<open>runTask\<close> stands: before it takes the lock of the
  task; in the handler, which it entered at the given time with \<open>IsRunning\<close> set;
  returned at once because the task was running; or finished.
\<close>

datatype position = AtLock | InHandler Time | Returned | Finished

text \<open>
  The registry of tasks and the goroutines started on them, each with the ID of its
  task. The registry is not changed while the goroutines run, so the ID stands for the
  pointer to the task that \<open>runTask\<close> receives.
\<close>

record Runtime =
  tasks :: "string \<rightharpoonup> Task"
  goroutines :: "(string \<times> position) list"

text \<open>
  The steps that are interleaved. Each is one piece of code that runs while it holds
  the lock of the task, hence without another step on the same task in between:
  \<^item> \<open>Tick id now\<close>: the tick loop reaches the task in \<open>checkAndRunTasks\<close>, and
    starts a goroutine if \<open>shouldRun\<close> says so;
  \<^item> \<open>RunNow id\<close>: a call of \<open>RunNow\<close>, which starts a goroutine if the task exists;
  \<^item> \<open>Enter g now\<close>: goroutine \<open>g\<close> runs the first lines of \<open>runTask\<close>, up to the
    release of the lock: it returns if \<open>IsRunning\<close> is set and sets it otherwise;
  \<^item> \<open>Leave g err now\<close>: the handler of goroutine \<open>g\<close> has returned \<open>err\<close> and the
    goroutine runs the second locked part of \<open>runTask\<close>.
  A step that is not possible in a state leaves the state as it is.
\<close>

datatype event =
    Tick string Time
  | RunNow string
  | Enter nat Time
  | Leave nat "string option" Time

definition spawn :: "Runtime \<Rightarrow> string \<Rightarrow> Runtime" where
  "spawn s tid = s\<lparr>goroutines := goroutines s @ [(tid, AtLock)]\<rparr>"

definition enter :: "Runtime \<Rightarrow> nat \<Rightarrow> Time \<Rightarrow> Runtime" where
  "enter s g now =
     (if g < length (goroutines s) \<and> snd (goroutines s ! g) = AtLock then
        (let tid = fst (goroutines s ! g)
         in case tasks s tid of
              None \<Rightarrow> s
            | Some task \<Rightarrow>
                if IsRunning task
                then s\<lparr>goroutines := (goroutines s)[g := (tid, Returned)]\<rparr>
                else s\<lparr>tasks := (tasks s)(tid \<mapsto> task\<lparr>IsRunning := True\<rparr>),
                       goroutines := (goroutines s)[g := (tid, InHandler now)]\<rparr>)
      else s)"

definition leave :: "Runtime \<Rightarrow> nat \<Rightarrow> string option \<Rightarrow> Time \<Rightarrow> Runtime" where
  "leave s g err now =
     (if g < length (goroutines s) then
        (case goroutines s ! g of
           (tid, InHandler started) \<Rightarrow>
             (case tasks s tid of
                None \<Rightarrow> s
              | Some task \<Rightarrow>
                  s\<lparr>tasks := (tasks s)(tid \<mapsto>
                         task\<lparr>IsRunning := False,
                              LastRunAt := started,
                              RunCount := wrap64 (RunCount task + 1),
                              FailCount := (if err \<noteq> None then wrap64 (FailCount task + 1)
                                            else FailCount task),
                              NextRunAt := (case cronExpr task of
                                              Some c \<Rightarrow> Next c now
                                            | None \<Rightarrow> NextRunAt task)\<rparr>),
                     goroutines := (goroutines s)[g := (tid, Finished)]\<rparr>)
         | _ \<Rightarrow> s)
      else s)"

fun step :: "Runtime \<Rightarrow> event \<Rightarrow> Runtime" where
  "step s (Tick tid now) =
     (case tasks s tid of
        None \<Rightarrow> s
      | Some task \<Rightarrow> if shouldRun task now then spawn s tid else s)"
| "step s (RunNow tid) =
     (case tasks s tid of None \<Rightarrow> s | Some task \<Rightarrow> spawn s tid)"
| "step s (Enter g now) = enter s g now"
| "step s (Leave g err now) = leave s g err now"

definition interleave :: "Runtime \<Rightarrow> event list \<Rightarrow> Runtime" where
  "interleave s evs = foldl step s evs"

text \<open>The goroutines that are in the handler of task \<open>tid\<close>.\<close>

fun inHandler :: "string \<Rightarrow> string \<times> position \<Rightarrow> bool" where
  "inHandler tid (tid', InHandler started) = (tid' = tid)"
| "inHandler tid (tid', other) = False"

definition inFlight :: "Runtime \<Rightarrow> string \<Rightarrow> (string \<times> position) list" where
  "inFlight s tid = filter (inHandler tid) (goroutines s)"

text \<open>
  The runs in flight of each task are at most what its flag says: one if
  \<open>IsRunning\<close> is set, none otherwise.
\<close>

definition flagged :: "Runtime \<Rightarrow> bool" where
  "flagged s =
     (\<forall>tid. length (inFlight s tid)
             \<le> (case tasks s tid of
                   None \<Rightarrow> 0
                 | Some task \<Rightarrow> if IsRunning task then 1 else 0))"

text \<open>A task for the examples: every minute, never run.\<close>

definition exampleTask :: Task where
  "exampleTask =
     \<lparr>ID = ''task_1'', Name = ''job'', Schedule = ''* * * * *'', LastRunAt = zeroTime,
      NextRunAt = Date 2024 1 1 12 1, RunCount = 0, FailCount = 0, IsRunning = False,
      Description = [],
      cronExpr = Some \<lparr>minute = [0..59], hour = [0..23], dayOfMonth = [1..31],
                        month = [1..12], dayOfWeek = [0..6]\<rparr>\<rparr>"

section \<open>Facts about the library functions and the loops of the parser\<close>

lemma wrap64_id: "minInt \<le> x \<Longrightarrow> x \<le> maxInt \<Longrightarrow> wrap64 x = x"
  by (simp add: wrap64_def minInt_def maxInt_def)

lemma wrap64_range: "minInt \<le> wrap64 x \<and> wrap64 x \<le> maxInt"
proof -
  have "0 \<le> (x + 2 ^ 63) mod (2 ^ 64 :: int)" and "(x + 2 ^ 63) mod (2 ^ 64 :: int) < 2 ^ 64"
    by simp_all
  then show ?thesis by (simp add: wrap64_def minInt_def maxInt_def)
qed

lemma appendLoop_step0_Some:
  "appendLoop i b s vals = Some r \<Longrightarrow> s = 0 \<and> minInt \<le> i \<and> i \<le> maxInt \<longrightarrow> b < i"
proof (rule appendLoop.raw_induct
    [where P = "\<lambda>i b s vals r. s = 0 \<and> minInt \<le> i \<and> i \<le> maxInt \<longrightarrow> b < i"])
  fix loop :: "int \<Rightarrow> int \<Rightarrow> int \<Rightarrow> int list \<Rightarrow> int list option" and i b s vals r
  assume IH: "\<And>i b s vals y. loop i b s vals = Some y \<Longrightarrow>
                 s = 0 \<and> minInt \<le> i \<and> i \<le> maxInt \<longrightarrow> b < i"
    and eq: "(if i \<le> b then loop (wrap64 (i + s)) b s (vals @ [i]) else Some vals) = Some r"
  show "s = 0 \<and> minInt \<le> i \<and> i \<le> maxInt \<longrightarrow> b < i"
  proof (intro impI, elim conjE)
    assume s: "s = 0" and lo: "minInt \<le> i" and hi: "i \<le> maxInt"
    show "b < i"
    proof (rule ccontr)
      assume "\<not> b < i"
      then have le: "i \<le> b" by simp
      with eq s have "loop (wrap64 i) b 0 (vals @ [i]) = Some r" by simp
      then have "b < wrap64 i" using IH wrap64_range by blast
      with le lo hi show False by (simp add: wrap64_id)
    qed
  qed
qed

lemma appendLoop_step0_None:
  "i \<le> b \<Longrightarrow> minInt \<le> i \<Longrightarrow> i \<le> maxInt \<Longrightarrow> appendLoop i b 0 vals = None"
  using appendLoop_step0_Some [of i b 0 vals] by (cases "appendLoop i b 0 vals") auto

lemma appendLoop_unit:
  "i \<le> b + 1 \<Longrightarrow> b < maxInt \<Longrightarrow> minInt \<le> i \<Longrightarrow> appendLoop i b 1 vals = Some (vals @ [i..b])"
proof (induction "nat (b + 1 - i)" arbitrary: i vals)
  case 0
  then have "b < i" by simp
  then show ?case by (subst appendLoop.simps) simp
next
  case (Suc n)
  then have le: "i \<le> b" by simp
  have w: "wrap64 (i + 1) = i + 1"
    using le Suc.prems by (intro wrap64_id) (simp_all add: minInt_def maxInt_def)
  have "appendLoop (i + 1) b 1 (vals @ [i]) = Some ((vals @ [i]) @ [i + 1..b])"
    using Suc le by (intro Suc.hyps(1)) (simp_all add: minInt_def)
  then show ?case
    using le w by (subst appendLoop.simps) (simp add: upto_rec1)
qed

lemma splitAcc_none: "sep \<notin> set s \<Longrightarrow> splitAcc sep cur s = [cur @ s]"
  by (induction s arbitrary: cur) auto

lemma splitAcc_first:
  "sep \<notin> set s \<Longrightarrow> splitAcc sep cur (s @ sep # r) = (cur @ s) # splitAcc sep [] r"
  by (induction s arbitrary: cur) auto

lemma Split_two:
  "sep \<notin> set sa \<Longrightarrow> sep \<notin> set sb \<Longrightarrow> Split (sa @ sep # sb) sep = [sa, sb]"
  by (simp add: Split_def splitAcc_first splitAcc_none)

lemma Split_one: "sep \<notin> set s \<Longrightarrow> Split s sep = [s]"
  by (simp add: Split_def splitAcc_none)

lemma Atoi_chars:
  assumes "Atoi s = Inr a"
  shows "\<forall>c \<in> set s. isDigit c \<or> c = CHR ''-'' \<or> c = CHR ''+''"
proof (cases s)
  case Nil
  then show ?thesis by simp
next
  case (Cons c r)
  with assms show ?thesis
    by (auto simp: Atoi_def Let_def list_all_iff split: if_splits)
qed

lemma Atoi_range: "Atoi s = Inr a \<Longrightarrow> minInt \<le> a \<and> a \<le> maxInt"
  by (auto simp: Atoi_def Let_def split: if_splits)

lemma Atoi_nonempty: "Atoi s = Inr a \<Longrightarrow> s \<noteq> []"
  by (auto simp: Atoi_def Let_def split: if_splits)

lemma comma_not_in_numeral: "Atoi s = Inr a \<Longrightarrow> CHR '','' \<notin> set s"
  using Atoi_chars [of s a] by (auto simp: isDigit_def)

lemmas parser_defs = ParseCron_def Fields_def spaceLen_def withField_def parseField_def
  Split_def parsePart_def Contains_def Atoi_def isDigit_def digitsVal_def digitVal_def
  minInt_def maxInt_def



section \<open>Facts about time and the search of Next\<close>
















section \<open>Facts about the execution log\<close>

lemma addLog_ok:
  assumes "0 \<le> maxLogSize s"
  shows "addLog s lg =
           Inr (s\<lparr>logs := drop (length (logs s @ [lg]) - nat (maxLogSize s)) (logs s @ [lg])\<rparr>)"
proof -
  define xs where "xs = logs s @ [lg]"
  have eq: "addLog s lg =
     (if int (length xs) > maxLogSize s
      then (if int (length xs) - maxLogSize s < 0 \<or> int (length xs) < int (length xs) - maxLogSize s
            then Inl SliceBoundsOutOfRange
            else Inr (s\<lparr>logs := drop (nat (int (length xs) - maxLogSize s)) xs\<rparr>))
      else Inr (s\<lparr>logs := xs\<rparr>))"
    unfolding addLog_def Let_def xs_def by (rule refl)
  have "addLog s lg = Inr (s\<lparr>logs := drop (length xs - nat (maxLogSize s)) xs\<rparr>)"
  proof (cases "int (length xs) > maxLogSize s")
    case True
    then have "nat (int (length xs) - maxLogSize s) = length xs - nat (maxLogSize s)"
      using assms by linarith
    then show ?thesis using True assms by (simp add: eq)
  next
    case False
    then have "length xs - nat (maxLogSize s) = 0" by linarith
    then show ?thesis using False by (simp add: eq)
  qed
  then show ?thesis by (simp only: xs_def)
qed

lemma drop_suffix_step:
  fixes xs ys :: "'a list"
  shows "drop (length (drop (length xs - m) xs @ ys) - m) (drop (length xs - m) xs @ ys)
           = drop (length (xs @ ys) - m) (xs @ ys)"
proof (cases "length xs \<le> m")
  case True
  then show ?thesis by simp
next
  case False
  then have "length (drop (length xs - m) xs) = m" by simp
  then show ?thesis using False by (simp add: add.commute)
qed

lemma addLogs_ok:
  "0 \<le> maxLogSize s \<Longrightarrow>
   addLogs s lgs =
     Inr (s\<lparr>logs := (if lgs = [] then logs s
                     else drop (length (logs s @ lgs) - nat (maxLogSize s)) (logs s @ lgs))\<rparr>)"
proof (induction lgs arbitrary: s)
  case Nil
  then show ?case by simp
next
  case (Cons lg lgs)
  let ?m = "nat (maxLogSize s)"
  let ?s1 = "s\<lparr>logs := drop (length (logs s @ [lg]) - ?m) (logs s @ [lg])\<rparr>"
  have a: "addLog s lg = Inr ?s1" using Cons.prems by (rule addLog_ok)
  have m1: "0 \<le> maxLogSize ?s1" using Cons.prems by simp
  show ?case
  proof (cases "lgs = []")
    case True
    then show ?thesis using a by simp
  next
    case False
    have "drop (length (drop (length (logs s @ [lg]) - ?m) (logs s @ [lg]) @ lgs) - ?m)
            (drop (length (logs s @ [lg]) - ?m) (logs s @ [lg]) @ lgs)
          = drop (length ((logs s @ [lg]) @ lgs) - ?m) ((logs s @ [lg]) @ lgs)"
      by (rule drop_suffix_step)
    then show ?thesis
      using a False Cons.IH [OF m1] by (simp del: drop_append)
  qed
qed

section \<open>Facts about the rate limiters\<close>






















section \<open>Facts about running tasks\<close>

lemma filter_update_length:
  "g < length xs \<Longrightarrow>
   length (filter P (xs[g := y])) + (if P (xs ! g) then 1 else 0)
     = length (filter P xs) + (if P y then 1 else 0)"
proof (induction xs arbitrary: g)
  case Nil
  then show ?case by simp
next
  case (Cons x xs)
  show ?case
  proof (cases g)
    case 0
    then show ?thesis by simp
  next
    case (Suc k)
    then have "k < length xs" using Cons.prems by simp
    from Cons.IH [OF this] Suc show ?thesis by simp
  qed
qed

lemma inFlight_spawn: "inFlight (spawn s tid') tid = inFlight s tid"
  by (simp add: inFlight_def spawn_def)

lemma flagged_spawn: "flagged s \<Longrightarrow> flagged (spawn s tid)"
  by (simp add: flagged_def inFlight_spawn) (simp add: spawn_def)

lemma flagged_bound:
  "flagged s \<Longrightarrow>
   length (inFlight s tid)
     \<le> (case tasks s tid of None \<Rightarrow> 0 | Some task \<Rightarrow> if IsRunning task then 1 else 0)"
  by (simp add: flagged_def)

lemma flagged_enter:
  assumes "flagged s"
  shows "flagged (enter s g now)"
proof (cases "g < length (goroutines s) \<and> snd (goroutines s ! g) = AtLock")
  case False
  then show ?thesis using assms by (auto simp: enter_def)
next
  case True
  define tid where "tid = fst (goroutines s ! g)"
  have at: "goroutines s ! g = (tid, AtLock)"
    using True by (simp add: tid_def prod_eq_iff)
  have g: "g < length (goroutines s)" using True by simp
  show ?thesis
  proof (cases "tasks s tid")
    case None
    then show ?thesis using assms True by (simp add: enter_def tid_def)
  next
    case (Some task)
    show ?thesis
    proof (cases "IsRunning task")
      case True
      have e: "enter s g now = s\<lparr>goroutines := (goroutines s)[g := (tid, Returned)]\<rparr>"
        using g at Some True by (simp add: enter_def)
      have "length (inFlight (enter s g now) t) = length (inFlight s t)" for t
        using filter_update_length [OF g, of "inHandler t" "(tid, Returned)"] at
        by (simp add: e inFlight_def)
      then show ?thesis using assms by (simp add: flagged_def) (simp add: e)
    next
      case False
      have e: "enter s g now = s\<lparr>tasks := (tasks s)(tid \<mapsto> task\<lparr>IsRunning := True\<rparr>),
                       goroutines := (goroutines s)[g := (tid, InHandler now)]\<rparr>"
        using g at Some False by (simp add: enter_def)
      have none: "length (inFlight s tid) = 0"
        using flagged_bound [OF assms, of tid] Some False by simp
      have len: "length (inFlight (enter s g now) t)
                   = length (inFlight s t) + (if t = tid then 1 else 0)" for t
        using filter_update_length [OF g, of "inHandler t" "(tid, InHandler now)"] at
        by (simp add: e inFlight_def)
      show ?thesis
        unfolding flagged_def
      proof
        fix t
        show "length (inFlight (enter s g now) t)
             \<le> (case tasks (enter s g now) t of
                   None \<Rightarrow> 0
                 | Some task \<Rightarrow> if IsRunning task then 1 else 0)"
        proof (cases "t = tid")
          case True
          then show ?thesis using len [of t] none by (simp add: e)
        next
          case False
          then show ?thesis
            using len [of t] assms by (simp add: e flagged_def)
        qed
      qed
    qed
  qed
qed

lemma flagged_leave:
  assumes "flagged s"
  shows "flagged (leave s g err now)"
proof (cases "g < length (goroutines s)")
  case False
  then show ?thesis using assms by (simp add: leave_def)
next
  case g: True
  obtain tid p where at: "goroutines s ! g = (tid, p)" by (cases "goroutines s ! g")
  show ?thesis
  proof (cases p)
    case (InHandler started)
    show ?thesis
    proof (cases "tasks s tid")
      case None
      then show ?thesis using assms g at InHandler by (simp add: leave_def)
    next
      case (Some task)
      define task' where "task' = task\<lparr>IsRunning := False,
                              LastRunAt := started,
                              RunCount := wrap64 (RunCount task + 1),
                              FailCount := (if err \<noteq> None then wrap64 (FailCount task + 1)
                                            else FailCount task),
                              NextRunAt := (case cronExpr task of
                                              Some c \<Rightarrow> Next c now
                                            | None \<Rightarrow> NextRunAt task)\<rparr>"
      have e: "leave s g err now = s\<lparr>tasks := (tasks s)(tid \<mapsto> task'),
                     goroutines := (goroutines s)[g := (tid, Finished)]\<rparr>"
        using g at InHandler Some by (simp add: leave_def task'_def)
      have nr: "\<not> IsRunning task'" by (simp add: task'_def)
      have len: "length (inFlight (leave s g err now) t) + (if t = tid then 1 else 0)
                   = length (inFlight s t)" for t
        using filter_update_length [OF g, of "inHandler t" "(tid, Finished)"] at InHandler
        by (auto simp: e inFlight_def)
      have one: "length (inFlight s tid) \<le> 1"
        using flagged_bound [OF assms, of tid] Some by (simp split: if_splits)
      show ?thesis
        unfolding flagged_def
      proof
        fix t
        show "length (inFlight (leave s g err now) t)
             \<le> (case tasks (leave s g err now) t of
                   None \<Rightarrow> 0
                 | Some task \<Rightarrow> if IsRunning task then 1 else 0)"
        proof (cases "t = tid")
          case True
          then show ?thesis using len [of t] one by (simp add: e)
        next
          case False
          then show ?thesis
            using len [of t] assms by (simp add: e flagged_def)
        qed
      qed
    qed
  qed (use assms g at in \<open>simp_all add: leave_def\<close>)
qed

lemma flagged_step: "flagged s \<Longrightarrow> flagged (step s ev)"
  by (cases ev) (auto simp: flagged_spawn flagged_enter flagged_leave split: option.splits)

lemma flagged_interleave: "flagged s \<Longrightarrow> flagged (interleave s evs)"
  unfolding interleave_def by (induction evs arbitrary: s) (simp_all add: flagged_step)

lemma flagged_initial: "goroutines s = [] \<Longrightarrow> flagged s"
  by (simp add: flagged_def inFlight_def)

lemma flagged_one: "flagged s \<Longrightarrow> length (inFlight s tid) \<le> 1"
  using flagged_bound [of s tid] by (simp split: option.splits if_splits)

lemma flagged_running:
  "flagged s \<Longrightarrow> inFlight s tid \<noteq> [] \<Longrightarrow> \<exists>task. tasks s tid = Some task \<and> IsRunning task"
  using flagged_bound [of s tid] by (simp split: option.splits if_splits)

lemma filter_update_same:
  "g < length xs \<Longrightarrow> \<not> P (xs ! g) \<Longrightarrow> \<not> P y \<Longrightarrow> filter P (xs[g := y]) = filter P xs"
proof (induction xs arbitrary: g)
  case Nil
  then show ?case by simp
next
  case (Cons x xs)
  then show ?case by (cases g) simp_all
qed

section \<open>The result of Next\<close>




section \<open>Inputs on which ParseCron goes wrong\<close>

text \<open>
  Claim C2 (a field with no value is a parse error) fails on the code: the step branch of
  \<open>parseField\<close> does not compare the start of a step term with the range of the field,
  as the range branch and the single-value branch do. The start 70 is beyond the maximum
  59 of the minute field, the loop adds nothing, and \<open>ParseCron\<close> returns an expression
  whose set of minutes is empty.
\<close>

theorem empty_field_accepted:
  "ParseCron ''70/5 * * * *'' =
     Some (Inr \<lparr>minute = [], hour = [0..23], dayOfMonth = [1..31], month = [1..12],
                dayOfWeek = [0..6]\<rparr>)"
  by (simp add: parser_defs appendLoop_unit) (simp add: appendLoop.simps)

section \<open>Range sub-terms\<close>

text \<open>
  Claim C3. A range sub-term \<open>a-b\<close>, with \<open>a\<close> and \<open>b\<close> numerals that
  \<open>strconv.Atoi\<close> accepts and that are written without a minus sign (the only \<open>-\<close> of
  the sub-term is the one between them), parsed against the range \<open>[mn, mx]\<close> of a
  field: when \<open>mn \<le> a \<le> b \<le> mx\<close> the sub-term adds exactly the integers from \<open>a\<close>
  to \<open>b\<close>, in order, to the values collected so far, and a field that is this
  sub-term alone yields exactly these integers; whenever \<open>a > b\<close>, \<open>a < mn\<close> or
  \<open>b > mx\<close> the result is the range error. The bound \<open>mx < maxInt\<close> holds for the five
  ranges \<open>ParseCron\<close> declares (at most 59).
\<close>

theorem range_subterm:
  assumes a: "Atoi sa = Inr a" and b: "Atoi sb = Inr b"
    and na: "CHR ''-'' \<notin> set sa" and nb: "CHR ''-'' \<notin> set sb"
    and mx: "mx < maxInt"
  shows "parsePart (sa @ ''-'' @ sb) mn mx vals =
           (if mn \<le> a \<and> a \<le> b \<and> b \<le> mx then Some (Inr (vals @ [a..b]))
            else Some (Inl (RangeError (sa @ ''-'' @ sb) mn mx)))
         \<and> parseField (sa @ ''-'' @ sb) mn mx =
           (if mn \<le> a \<and> a \<le> b \<and> b \<le> mx then Some (Inr [a..b])
            else Some (Inl (RangeError (sa @ ''-'' @ sb) mn mx)))"
proof -
  let ?p = "sa @ ''-'' @ sb"
  have sp: "Split (sa @ CHR ''-'' # sb) CHR ''-'' = [sa, sb]"
    using na nb by (rule Split_two)
  have loop: "mn \<le> a \<Longrightarrow> a \<le> b \<Longrightarrow> b \<le> mx \<Longrightarrow>
      appendLoop a b 1 vs = Some (vs @ [a..b])" for vs
    using appendLoop_unit [of a b vs] Atoi_range [OF a] mx by simp
  have part: "parsePart ?p mn mx vs =
           (if mn \<le> a \<and> a \<le> b \<and> b \<le> mx then Some (Inr (vs @ [a..b]))
            else Some (Inl (RangeError ?p mn mx)))" for vs
    using loop [of vs] by (auto simp: parsePart_def Contains_def sp a b)
  have star: "?p \<noteq> ''*''"
    using Atoi_nonempty [OF a] by (cases sa) auto
  have "CHR '','' \<notin> set ?p"
    using comma_not_in_numeral [OF a] comma_not_in_numeral [OF b] by simp
  then have "Split ?p CHR '','' = [?p]" by (rule Split_one)
  then have "Split (sa @ CHR ''-'' # sb) CHR '','' = [sa @ CHR ''-'' # sb]" by simp
  then have "parseField ?p mn mx =
           (if mn \<le> a \<and> a \<le> b \<and> b \<le> mx then Some (Inr [a..b])
            else Some (Inl (RangeError ?p mn mx)))"
    using star part [of "[]"] by (simp add: parseField_def)
  with part [of vals] show ?thesis by simp
qed

theorem range_subterm_witness:
  "Atoi ''10'' = Inr 10 \<and> Atoi ''13'' = Inr 13 \<and> parsePart ''10-13'' 0 59 [] = Some (Inr [10, 11, 12, 13])
   \<and> parseField ''10-13'' 0 59 = Some (Inr [10, 11, 12, 13])"
proof -
  have a: "Atoi ''10'' = Inr 10" and b: "Atoi ''13'' = Inr 13"
    by (simp_all add: Atoi_def isDigit_def digitsVal_def digitVal_def minInt_def maxInt_def)
  have u: "[10..13] = [10, 11, 12, 13 :: int]" by (simp add: upto.simps)
  show ?thesis
    using range_subterm [OF a b, of 59 0 "[]"] a b u by (simp add: maxInt_def)
qed

section \<open>The search of Next\<close>



section \<open>The token bucket's AllowN\<close>



section \<open>The quota never exceeds the bound\<close>




section \<open>The bound of the execution log\<close>

text \<open>
  Claim C7. A call of \<open>addLog\<close> on a scheduler whose \<open>maxLogSize\<close> is not negative
  returns normally and leaves at most \<open>maxLogSize\<close> entries: the log with the new entry
  at its end, shortened from the front to its last \<open>maxLogSize\<close> entries, so the
  entries dropped are the oldest and the order of the others is kept. \<open>NewScheduler\<close>
  sets \<open>maxLogSize\<close> to 1000, and after any number of calls of \<open>addLog\<close> on a new
  scheduler the log holds the last 1000 of the entries added (all of them when there are
  fewer), in the order they were added.
\<close>

theorem addLog_bounded:
  "(0 \<le> maxLogSize s \<longrightarrow>
      (\<exists>s'. addLog s lg = Inr s' \<and> maxLogSize s' = maxLogSize s
            \<and> int (length (logs s')) \<le> maxLogSize s
            \<and> logs s' = drop (length (logs s @ [lg]) - nat (maxLogSize s)) (logs s @ [lg])))
   \<and> maxLogSize NewScheduler = 1000
   \<and> (\<exists>s'. addLogs NewScheduler lgs = Inr s' \<and> length (logs s') \<le> 1000
            \<and> logs s' = drop (length lgs - 1000) lgs)"
proof (intro conjI impI)
  assume m: "0 \<le> maxLogSize s"
  have "int (length (drop (length (logs s @ [lg]) - nat (maxLogSize s)) (logs s @ [lg])))
          \<le> maxLogSize s"
    using m by (simp del: drop_append)
  then show "\<exists>s'. addLog s lg = Inr s' \<and> maxLogSize s' = maxLogSize s
            \<and> int (length (logs s')) \<le> maxLogSize s
            \<and> logs s' = drop (length (logs s @ [lg]) - nat (maxLogSize s)) (logs s @ [lg])"
    using addLog_ok [OF m, of lg] by (simp del: drop_append length_append)
next
  show "maxLogSize NewScheduler = 1000" by (simp add: NewScheduler_def)
next
  have "0 \<le> maxLogSize NewScheduler" by (simp add: NewScheduler_def)
  from addLogs_ok [OF this, of lgs]
  show "\<exists>s'. addLogs NewScheduler lgs = Inr s' \<and> length (logs s') \<le> 1000
            \<and> logs s' = drop (length lgs - 1000) lgs"
    by (auto simp: NewScheduler_def)
qed

text \<open>
  Claim C7, the theorem used on a log of two entries with \<open>maxLogSize = 2\<close>: adding a
  third entry drops the first; and on a new scheduler, which keeps a single entry added.
\<close>

theorem addLog_bounded_witness:
  "addLog \<lparr>logs = [logEntry 1, logEntry 2], maxLogSize = 2\<rparr> (logEntry 3)
     = Inr \<lparr>logs = [logEntry 2, logEntry 3], maxLogSize = 2\<rparr>
   \<and> addLogs NewScheduler [logEntry 1] = Inr \<lparr>logs = [logEntry 1], maxLogSize = 1000\<rparr>"
proof -
  let ?s = "\<lparr>logs = [logEntry 1, logEntry 2], maxLogSize = 2\<rparr>"
  have m: "0 \<le> maxLogSize ?s" by simp
  from addLog_bounded [of ?s "logEntry 3" "[logEntry 1]"] m
  obtain s1 s2 where
    s1: "addLog ?s (logEntry 3) = Inr s1" "maxLogSize s1 = 2"
        "logs s1 = [logEntry 2, logEntry 3]"
    and s2: "addLogs NewScheduler [logEntry 1] = Inr s2" "logs s2 = [logEntry 1]"
    by auto
  have "maxLogSize s2 = 1000"
    using s2(1) by (auto simp: addLog_def NewScheduler_def Let_def split: if_splits)
  with s2 have "s2 = \<lparr>logs = [logEntry 1], maxLogSize = 1000\<rparr>" by simp
  moreover from s1 have "s1 = \<lparr>logs = [logEntry 2, logEntry 3], maxLogSize = 2\<rparr>" by simp
  ultimately show ?thesis using s1(1) s2(1) by simp
qed

section \<open>No two runs of a task at the same time\<close>

text \<open>
  Claim C8. Start with no goroutine and interleave, in any order, the dispatches of the
  tick loop, calls of \<open>RunNow\<close>, and the locked parts of the goroutines that execute
  \<open>runTask\<close>. Then for every task ID at most one goroutine is in the handler of the
  task; and while one is, every other goroutine of the task that gets to its check of
  \<open>IsRunning\<close> returns without entering the handler, and the run in flight goes on.
\<close>

theorem no_overlapping_runs:
  assumes "goroutines s0 = []"
  shows "length (inFlight (interleave s0 evs) tid) \<le> 1
         \<and> (inFlight (interleave s0 evs) tid \<noteq> [] \<longrightarrow>
              (\<forall>g now. g < length (goroutines (interleave s0 evs))
                        \<and> goroutines (interleave s0 evs) ! g = (tid, AtLock) \<longrightarrow>
                 goroutines (step (interleave s0 evs) (Enter g now)) ! g = (tid, Returned)
                 \<and> inFlight (step (interleave s0 evs) (Enter g now)) tid
                     = inFlight (interleave s0 evs) tid))"
proof -
  let ?s = "interleave s0 evs"
  have f: "flagged ?s"
    using assms by (intro flagged_interleave flagged_initial)
  have "goroutines (step ?s (Enter g now)) ! g = (tid, Returned)
        \<and> inFlight (step ?s (Enter g now)) tid = inFlight ?s tid"
    if busy: "inFlight ?s tid \<noteq> []" and g: "g < length (goroutines ?s)"
      and at: "goroutines ?s ! g = (tid, AtLock)" for g now
  proof -
    from flagged_running [OF f busy] obtain task where
      t: "tasks ?s tid = Some task" "IsRunning task" by blast
    have e: "enter ?s g now = ?s\<lparr>goroutines := (goroutines ?s)[g := (tid, Returned)]\<rparr>"
      using g at t by (simp add: enter_def)
    have "filter (inHandler tid) ((goroutines ?s)[g := (tid, Returned)])
            = filter (inHandler tid) (goroutines ?s)"
      using g at by (intro filter_update_same) simp_all
    then show ?thesis using g by (simp add: e inFlight_def)
  qed
  with flagged_one [OF f, of tid] show ?thesis by blast
qed

text \<open>
  Claim C8, the theorem used on one task: \<open>RunNow\<close> and a tick that is due start two
  goroutines, the first enters the handler, and the second returns at its check.
\<close>

theorem no_overlapping_runs_witness:
  "goroutines (interleave \<lparr>tasks = [''task_1'' \<mapsto> exampleTask], goroutines = []\<rparr>
      [RunNow ''task_1'', Tick ''task_1'' (Date 2024 1 1 12 1), Enter 0 (Date 2024 1 1 12 1)])
     = [(''task_1'', InHandler (Date 2024 1 1 12 1)), (''task_1'', AtLock)]
   \<and> goroutines (step (interleave \<lparr>tasks = [''task_1'' \<mapsto> exampleTask], goroutines = []\<rparr>
      [RunNow ''task_1'', Tick ''task_1'' (Date 2024 1 1 12 1), Enter 0 (Date 2024 1 1 12 1)])
        (Enter 1 (Date 2024 1 1 12 1))) ! 1 = (''task_1'', Returned)"
proof -
  let ?s0 = "\<lparr>tasks = [''task_1'' \<mapsto> exampleTask], goroutines = []\<rparr>"
  let ?t = "Date 2024 1 1 12 1"
  let ?evs = "[RunNow ''task_1'', Tick ''task_1'' ?t, Enter 0 ?t]"
  have gs: "goroutines (interleave ?s0 ?evs)
      = [(''task_1'', InHandler ?t), (''task_1'', AtLock)]"
    by (simp add: interleave_def spawn_def enter_def shouldRun_def exampleTask_def Let_def)
  then have busy: "inFlight (interleave ?s0 ?evs) ''task_1'' \<noteq> []"
    by (simp add: inFlight_def)
  have g: "1 < length (goroutines (interleave ?s0 ?evs))
      \<and> goroutines (interleave ?s0 ?evs) ! 1 = (''task_1'', AtLock)"
    by (simp add: gs)
  have e: "goroutines ?s0 = []" by simp
  from no_overlapping_runs [OF e, of ?evs "''task_1''"] busy g
  have "goroutines (step (interleave ?s0 ?evs) (Enter 1 ?t)) ! 1 = (''task_1'', Returned)"
    by blast
  with gs show ?thesis by simp
qed

text \<open>
  Claim C9 (\<open>ParseCron\<close> terminates on every input) fails on the code: with the step 0
  the loop \<^verbatim>\<open>for i := start; i <= max; i += step\<close> never advances, so on
  \<open>"*/0 * * * *"\<close> the run of \<open>ParseCron\<close> never returns (\<open>None\<close> in the model).
\<close>

theorem step_zero_diverges: "ParseCron ''*/0 * * * *'' = None"
  by (simp add: parser_defs appendLoop_step0_None)

section \<open>Calls for no units or for a negative number of units\<close>




end
